theory Spec2Isabelle
  imports Complex_Main "HOL-Library.Multiset" "HOL-Library.Sublist"
begin

unbundle bit_operations_syntax

section \<open>The poker hand evaluator of treys (evaluator.py)\<close>

text \<open>
  Cards and ranks are Python integers, hence \<open>int\<close>; \<open>&\<close>, \<open>|\<close> and \<open>>>\<close> on Python
  integers are \<open>AND\<close>, \<open>OR\<close> and \<open>drop_bit\<close> on \<open>int\<close> (two's complement, unbounded).
  Every exception the evaluator can raise is a value of \<open>error\<close>; a function that can
  raise returns \<open>error + 'a\<close>.
\<close>

subsection \<open>Errors\<close>

datatype error =
    IndexError
      \<comment> \<open>\<open>cards[i]\<close> out of range in \<open>_five\<close>\<close>
  | KeyError int
      \<comment> \<open>\<open>KeyError(key)\<close> of a dictionary subscript with a missing key: \<open>hand_size_map\<close>,
          \<open>flush_lookup\<close>, \<open>unsuited_lookup\<close>, \<open>MAX_TO_RANK_CLASS\<close>, \<open>RANK_CLASS_TO_STRING\<close>\<close>
  | InvalidHandRank
      \<comment> \<open>\<open>raise Exception("Inavlid hand rank, cannot return rank class")\<close>\<close>
  | InvalidBoardLength
      \<comment> \<open>the AssertionError of \<open>assert len(board) == self.BOARD_LENGTH, "Invalid board length"\<close>\<close>
  | OverflowError
      \<comment> \<open>\<open>float(n)\<close> for an integer too large for a double\<close>
  | ZeroDivisionError
      \<comment> \<open>float division by \<open>0.0\<close>\<close>

subsection \<open>The collaborators: lookup table and card codec\<close>

text \<open>
  \<open>LookupTable\<close> (treys/lookup.py) and \<open>Card\<close> (treys/card.py) are imported by
  evaluator.py; the evaluator only reads them. The table's constants and dictionaries
  and the two prime-product helpers of \<open>Card\<close> are therefore parameters of every
  function below.
\<close>

record LookupTable =
  MAX_ROYAL_FLUSH :: int
  MAX_STRAIGHT_FLUSH :: int
  MAX_FOUR_OF_A_KIND :: int
  MAX_FULL_HOUSE :: int
  MAX_FLUSH :: int
  MAX_STRAIGHT :: int
  MAX_THREE_OF_A_KIND :: int
  MAX_TWO_PAIR :: int
  MAX_PAIR :: int
  MAX_TO_RANK_CLASS :: "int \<rightharpoonup> int"
  RANK_CLASS_TO_STRING :: "int \<rightharpoonup> string"
  flush_lookup :: "int \<rightharpoonup> int"
  unsuited_lookup :: "int \<rightharpoonup> int"

text \<open>
  Modelled from the spec: \<open>LookupTable.MAX_HIGH_CARD\<close> is declared in treys/lookup.py.
  The spec gives the high-card boundary, the worst legal rank, as 7462.
\<close>

definition MAX_HIGH_CARD :: int where
  "MAX_HIGH_CARD = 7462"

record Card =
  prime_product_from_rankbits :: "int \<Rightarrow> int"
  prime_product_from_hand :: "int list \<Rightarrow> int"

text \<open>A dictionary subscript \<open>d[k]\<close> raises KeyError when the key is missing.\<close>

definition table_get :: "(int \<rightharpoonup> int) \<Rightarrow> int \<Rightarrow> error + int" where
  "table_get d k = (case d k of None \<Rightarrow> Inl (KeyError k) | Some r \<Rightarrow> Inr r)"

subsection \<open>\<open>Evaluator._five\<close>\<close>

text \<open>
  \<open>cards[0] & cards[1] & cards[2] & cards[3] & cards[4] & 0xF000\<close> associates to the
  left and reads the five positions in order, so a sequence shorter than 5 raises
  IndexError. A longer sequence is accepted: the flush test and the OR read the first
  five cards, \<open>prime_product_from_hand\<close> receives all of them.
\<close>

definition five :: "LookupTable \<Rightarrow> Card \<Rightarrow> int list \<Rightarrow> error + int" where
  "five T C cards =
     (if length cards < 5 then Inl IndexError
      else if (((((cards ! 0 AND cards ! 1) AND cards ! 2) AND cards ! 3) AND cards ! 4)
                 AND 0xF000) \<noteq> 0
      then
        (let handOR = drop_bit 16
               ((((cards ! 0 OR cards ! 1) OR cards ! 2) OR cards ! 3) OR cards ! 4);
             prime = prime_product_from_rankbits C handOR
         in table_get (flush_lookup T) prime)
      else
        (let prime = prime_product_from_hand C cards
         in table_get (unsuited_lookup T) prime))"

subsection \<open>\<open>itertools.combinations\<close>\<close>

text \<open>
  \<open>itertools.combinations(xs, r)\<close> yields the \<open>r\<close>-length subsequences of \<open>xs\<close>, chosen
  by position, in lexicographic order of the positions.
\<close>

fun combinations :: "'a list \<Rightarrow> nat \<Rightarrow> 'a list list" where
  "combinations xs 0 = [[]]"
| "combinations [] (Suc r) = []"
| "combinations (x # xs) (Suc r) =
     map ((#) x) (combinations xs r) @ combinations xs (Suc r)"

subsection \<open>\<open>Evaluator._six\<close>, \<open>Evaluator._seven\<close>, \<open>Evaluator.evaluate\<close>\<close>

text \<open>
  The body of the \<open>for combo in itertools.combinations(cards, 5)\<close> loop of \<open>_six\<close> and
  \<open>_seven\<close>, with the running \<open>minimum\<close> as accumulator. An exception of \<open>_five\<close> leaves
  the loop.
\<close>

fun best_loop :: "LookupTable \<Rightarrow> Card \<Rightarrow> int list list \<Rightarrow> int \<Rightarrow> error + int" where
  "best_loop T C [] minimum = Inr minimum"
| "best_loop T C (combo # combos) minimum =
     (case five T C combo of
        Inl e \<Rightarrow> Inl e
      | Inr score \<Rightarrow>
          best_loop T C combos (if score < minimum then score else minimum))"

definition six :: "LookupTable \<Rightarrow> Card \<Rightarrow> int list \<Rightarrow> error + int" where
  "six T C cards = best_loop T C (combinations cards 5) MAX_HIGH_CARD"

definition seven :: "LookupTable \<Rightarrow> Card \<Rightarrow> int list \<Rightarrow> error + int" where
  "seven T C cards = best_loop T C (combinations cards 5) MAX_HIGH_CARD"

text \<open>
  \<open>self.hand_size_map[len(all_cards)](all_cards)\<close>: the dictionary has the keys 5, 6
  and 7 only, and any other length is a missing key. There is no other check of the
  number of cards ("No input validation because that's cycles!").
\<close>

definition evaluate :: "LookupTable \<Rightarrow> Card \<Rightarrow> int list \<Rightarrow> int list \<Rightarrow> error + int" where
  "evaluate T C hand board =
     (let all_cards = hand @ board in
      if length all_cards = 5 then five T C all_cards
      else if length all_cards = 6 then six T C all_cards
      else if length all_cards = 7 then seven T C all_cards
      else Inl (KeyError (int (length all_cards))))"

subsection \<open>\<open>Evaluator.get_rank_class\<close> and \<open>Evaluator.class_to_string\<close>\<close>

definition rank_class_of :: "LookupTable \<Rightarrow> int \<Rightarrow> error + int" where
  "rank_class_of T k =
     (case MAX_TO_RANK_CLASS T k of None \<Rightarrow> Inl (KeyError k) | Some c \<Rightarrow> Inr c)"

text \<open>
  The \<open>if\<close>/\<open>elif\<close> chain in the order of the source. Only the first test has the
  conjunct \<open>hr >= 0\<close>.
\<close>

definition get_rank_class :: "LookupTable \<Rightarrow> int \<Rightarrow> error + int" where
  "get_rank_class T hr =
     (if hr \<ge> 0 \<and> hr \<le> MAX_ROYAL_FLUSH T then rank_class_of T (MAX_ROYAL_FLUSH T)
      else if hr \<le> MAX_STRAIGHT_FLUSH T then rank_class_of T (MAX_STRAIGHT_FLUSH T)
      else if hr \<le> MAX_FOUR_OF_A_KIND T then rank_class_of T (MAX_FOUR_OF_A_KIND T)
      else if hr \<le> MAX_FULL_HOUSE T then rank_class_of T (MAX_FULL_HOUSE T)
      else if hr \<le> MAX_FLUSH T then rank_class_of T (MAX_FLUSH T)
      else if hr \<le> MAX_STRAIGHT T then rank_class_of T (MAX_STRAIGHT T)
      else if hr \<le> MAX_THREE_OF_A_KIND T then rank_class_of T (MAX_THREE_OF_A_KIND T)
      else if hr \<le> MAX_TWO_PAIR T then rank_class_of T (MAX_TWO_PAIR T)
      else if hr \<le> MAX_PAIR T then rank_class_of T (MAX_PAIR T)
      else if hr \<le> MAX_HIGH_CARD then rank_class_of T MAX_HIGH_CARD
      else Inl InvalidHandRank)"

definition class_to_string :: "LookupTable \<Rightarrow> int \<Rightarrow> error + string" where
  "class_to_string T class_int =
     (case RANK_CLASS_TO_STRING T class_int of
        None \<Rightarrow> Inl (KeyError class_int)
      | Some s \<Rightarrow> Inr s)"

subsection \<open>Python floats and \<open>Evaluator.get_five_card_rank_percentage\<close>\<close>

text \<open>
  A finite Python float is an IEEE 754 binary64 number; the model represents it by the
  real number it denotes. Every float operation returns the exact result rounded to 53
  significant bits, to nearest, ties to even. \<open>bit_length\<close> is Python's
  \<open>int.bit_length\<close>; \<open>floor_log2 x\<close> is the exponent \<open>e\<close> with \<open>2^e \<le> x < 2^(e+1)\<close>
  for \<open>x > 0\<close>.
\<close>

function bit_length :: "int \<Rightarrow> nat" where
  "bit_length n = (if n \<le> 0 then 0 else Suc (bit_length (n div 2)))"
  by pat_completeness auto
termination
  by (relation "measure nat") auto

text \<open>
  The equation of \<open>bit_length\<close> is unfolded where a proof asks for it.
\<close>

declare bit_length.simps [simp del]

definition floor_log2 :: "real \<Rightarrow> int" where
  "floor_log2 x =
     (if 1 \<le> x then int (bit_length \<lfloor>x\<rfloor>) - 1
      else - int (bit_length (\<lceil>1 / x\<rceil> - 1)))"

definition round_half_even :: "real \<Rightarrow> int" where
  "round_half_even x =
     (let f = \<lfloor>x\<rfloor>; d = x - of_int f in
      if d < 1 / 2 then f
      else if 1 / 2 < d then f + 1
      else if even f then f else f + 1)"

definition round53 :: "real \<Rightarrow> real" where
  "round53 x =
     (if x = 0 then 0
      else
        (let ulp = 2 powi (floor_log2 \<bar>x\<bar> - 52)
         in sgn x * of_int (round_half_even (\<bar>x\<bar> / ulp)) * ulp))"

text \<open>
  \<open>float(n)\<close> for a Python integer: the nearest double, and OverflowError when the
  rounded value would reach \<open>2^1024\<close>, that is from \<open>2^1024 - 2^970\<close> on.
\<close>

definition py_float :: "int \<Rightarrow> error + real" where
  "py_float n =
     (if 2 ^ 1024 - 2 ^ 970 \<le> \<bar>n\<bar> then Inl OverflowError
      else Inr (round53 (of_int n)))"

text \<open>
  Float division raises ZeroDivisionError on a zero divisor. The only division of the
  evaluator has an integer-valued dividend below \<open>2^1024\<close> and the divisor 7462.0, so
  the quotient is zero or lies in the normal range of binary64 and is rounded to 53
  bits; overflow to infinity and gradual underflow do not occur.
\<close>

definition float_div :: "real \<Rightarrow> real \<Rightarrow> error + real" where
  "float_div x y = (if y = 0 then Inl ZeroDivisionError else Inr (round53 (x / y)))"

definition get_five_card_rank_percentage :: "int \<Rightarrow> error + real" where
  "get_five_card_rank_percentage hand_rank =
     (case py_float hand_rank of
        Inl e \<Rightarrow> Inl e
      | Inr x \<Rightarrow>
          (case py_float MAX_HIGH_CARD of
             Inl e \<Rightarrow> Inl e
           | Inr y \<Rightarrow> float_div x y))"

subsection \<open>\<open>Evaluator.hand_summary\<close>\<close>

definition BOARD_LENGTH :: nat where
  "BOARD_LENGTH = 5"

text \<open>
  Lines 159 to 162: the four calls made for one player on one street. Each can raise;
  the class string and the percentage are computed and not used.
\<close>

definition score_player :: "LookupTable \<Rightarrow> Card \<Rightarrow> int list \<Rightarrow> int list \<Rightarrow> error + int" where
  "score_player T C hand board_so_far =
     (case evaluate T C hand board_so_far of
        Inl e \<Rightarrow> Inl e
      | Inr rank \<Rightarrow>
          (case get_rank_class T rank of
             Inl e \<Rightarrow> Inl e
           | Inr rank_class \<Rightarrow>
               (case class_to_string T rank_class of
                  Inl e \<Rightarrow> Inl e
                | Inr class_string \<Rightarrow>
                    (case get_five_card_rank_percentage rank of
                       Inl e \<Rightarrow> Inl e
                     | Inr p \<Rightarrow> Inr rank))))"

text \<open>Lines 166 to 171, on the pair \<open>(best_rank, winners)\<close>.\<close>

definition detect_winner :: "'p \<Rightarrow> int \<Rightarrow> int \<times> 'p list \<Rightarrow> int \<times> 'p list" where
  "detect_winner player rank s =
     (case s of (best_rank, winners) \<Rightarrow>
        if rank = best_rank then (rank, winners @ [player])
        else if rank < best_rank then (rank, [player])
        else (best_rank, winners))"

text \<open>
  The loop \<open>for player, hand in hands.items()\<close>; the dictionary is the list of its
  items in iteration order.
\<close>

fun players_loop ::
  "LookupTable \<Rightarrow> Card \<Rightarrow> int list \<Rightarrow> ('p \<times> int list) list \<Rightarrow> int \<times> 'p list
     \<Rightarrow> error + (int \<times> 'p list)" where
  "players_loop T C board_so_far [] s = Inr s"
| "players_loop T C board_so_far ((player, hand) # rest) s =
     (case score_player T C hand board_so_far of
        Inl e \<Rightarrow> Inl e
      | Inr rank \<Rightarrow> players_loop T C board_so_far rest (detect_winner player rank s))"

text \<open>
  The loop \<open>for i in range(len(stages))\<close>: each street starts from
  \<open>best_rank = 7463\<close> and \<open>winners = []\<close>, and \<open>winners\<close> keeps the value of the last
  street run. The accumulator is the current binding of \<open>winners\<close>.
\<close>

fun stages_loop ::
  "LookupTable \<Rightarrow> Card \<Rightarrow> int list \<Rightarrow> ('p \<times> int list) list \<Rightarrow> nat list \<Rightarrow> 'p list
     \<Rightarrow> error + 'p list" where
  "stages_loop T C board hands [] winners = Inr winners"
| "stages_loop T C board hands (i # stages) winners =
     (case players_loop T C (take (i + 3) board) hands (7463, []) of
        Inl e \<Rightarrow> Inl e
      | Inr (best_rank, winners') \<Rightarrow> stages_loop T C board hands stages winners')"

text \<open>
  \<open>stages\<close> has the three entries FLOP, TURN, RIVER, so the loop runs for
  \<open>i = 0, 1, 2\<close> and \<open>winners\<close> is bound when \<open>return winners\<close> is reached. The
  \<open>assert\<close> is executed, as it is unless the interpreter runs with \<open>-O\<close>.
\<close>

definition hand_summary ::
  "LookupTable \<Rightarrow> Card \<Rightarrow> int list \<Rightarrow> ('p \<times> int list) list \<Rightarrow> error + 'p list" where
  "hand_summary T C board hands =
     (if length board \<noteq> BOARD_LENGTH then Inl InvalidBoardLength
      else stages_loop T C board hands [0 ..< 3] [])"

subsection \<open>\<open>PLOEvaluator.evaluate\<close>\<close>

text \<open>The inner loop \<open>for board_combo in itertools.combinations(board, 3)\<close>.\<close>

fun plo_board_loop ::
  "LookupTable \<Rightarrow> Card \<Rightarrow> int list \<Rightarrow> int list list \<Rightarrow> int \<Rightarrow> error + int" where
  "plo_board_loop T C hand_combo [] minimum = Inr minimum"
| "plo_board_loop T C hand_combo (board_combo # board_combos) minimum =
     (case five T C (board_combo @ hand_combo) of
        Inl e \<Rightarrow> Inl e
      | Inr score \<Rightarrow>
          plo_board_loop T C hand_combo board_combos
            (if score < minimum then score else minimum))"

text \<open>The outer loop \<open>for hand_combo in itertools.combinations(hand, 2)\<close>.\<close>

fun plo_hand_loop ::
  "LookupTable \<Rightarrow> Card \<Rightarrow> int list list \<Rightarrow> int list \<Rightarrow> int \<Rightarrow> error + int" where
  "plo_hand_loop T C [] board minimum = Inr minimum"
| "plo_hand_loop T C (hand_combo # hand_combos) board minimum =
     (case plo_board_loop T C hand_combo (combinations board 3) minimum of
        Inl e \<Rightarrow> Inl e
      | Inr minimum' \<Rightarrow> plo_hand_loop T C hand_combos board minimum')"

definition plo_evaluate :: "LookupTable \<Rightarrow> Card \<Rightarrow> int list \<Rightarrow> int list \<Rightarrow> error + int" where
  "plo_evaluate T C hand board = plo_hand_loop T C (combinations hand 2) board MAX_HIGH_CARD"

subsection \<open>The specification's notions\<close>

text \<open>
  The specification's card fields: the suit field is the nibble selected by the mask
  \<open>0xF000\<close>, the rank-bit field is everything above bit 16.
\<close>

definition suit_field :: "int \<Rightarrow> int" where
  "suit_field c = c AND 0xF000"

definition rank_bits :: "int \<Rightarrow> int" where
  "rank_bits c = drop_bit 16 c"

definition and_all :: "int list \<Rightarrow> int" where
  "and_all xs = fold (AND) xs (- 1)"

definition or_all :: "int list \<Rightarrow> int" where
  "or_all xs = fold (OR) xs 0"

text \<open>
  The specification's five-card scorer: flush test on the AND of the suit fields, then
  one lookup.
\<close>

definition spec_score_five :: "LookupTable \<Rightarrow> Card \<Rightarrow> int list \<Rightarrow> error + int" where
  "spec_score_five T C cards =
     (if and_all (map suit_field cards) \<noteq> 0
      then table_get (flush_lookup T)
             (prime_product_from_rankbits C (or_all (map rank_bits cards)))
      else table_get (unsuited_lookup T) (prime_product_from_hand C cards))"

text \<open>The \<open>k\<close>-card subsets of a sequence of cards: its subsequences of length \<open>k\<close>.\<close>

definition subsets_of_size :: "nat \<Rightarrow> 'a list \<Rightarrow> 'a list list" where
  "subsets_of_size k xs = filter (\<lambda>ys. length ys = k) (subseqs xs)"

text \<open>The ranks that the five-card scorer gives to a collection of five-card hands.\<close>

definition scores :: "LookupTable \<Rightarrow> Card \<Rightarrow> int list list \<Rightarrow> int set" where
  "scores T C combos = {r. \<exists>c \<in> set combos. five T C c = Inr r}"

text \<open>
  The Omaha candidates: three board cards followed by two hole cards, for every
  two-card subset of the hand and every three-card subset of the board.
\<close>

definition omaha_candidates :: "int list \<Rightarrow> int list \<Rightarrow> int list list" where
  "omaha_candidates hand board =
     concat (map (\<lambda>hand_combo. map (\<lambda>board_combo. board_combo @ hand_combo)
                    (subsets_of_size 3 board))
               (subsets_of_size 2 hand))"

text \<open>
  Every hand of a collection is scored, with a rank between 1 and 7462: no lookup
  misses, and every lookup yields a legal rank.
\<close>

definition ranks_valid :: "LookupTable \<Rightarrow> Card \<Rightarrow> int list list \<Rightarrow> bool" where
  "ranks_valid T C combos =
     list_all (\<lambda>c. case five T C c of Inl e \<Rightarrow> False | Inr r \<Rightarrow> 1 \<le> r \<and> r \<le> 7462) combos"

text \<open>
  A five-card hand made of three cards of the board followed by two cards of the hand.
\<close>

definition omaha_shaped :: "int list \<Rightarrow> int list \<Rightarrow> int list \<Rightarrow> bool" where
  "omaha_shaped hand board c =
     (subseq (take 3 c) board \<and> subseq (drop 3 c) hand \<and> length c = 5)"

text \<open>
  The leader set of one street, from the players' ranks in iteration order: a rank
  strictly better than the best so far resets the set to that player, a rank equal to
  the best so far appends the player. The best so far starts at 7463, one worse than
  the worst hand.
\<close>

definition street_leaders :: "('p \<times> int) list \<Rightarrow> 'p list" where
  "street_leaders prs =
     snd (fold (\<lambda>(p, r) (best, leaders).
                  if r < best then (r, [p])
                  else if r = best then (best, leaders @ [p])
                  else (best, leaders))
            prs (7463, []))"

text \<open>
  On one street, every player's hand is scored: none of the four calls made for a
  player raises.
\<close>

definition street_scored ::
  "LookupTable \<Rightarrow> Card \<Rightarrow> int list \<Rightarrow> ('p \<times> int list) list \<Rightarrow> bool" where
  "street_scored T C board_so_far hands =
     list_all (\<lambda>(player, hand).
        case score_player T C hand board_so_far of Inl e \<Rightarrow> False | Inr rank \<Rightarrow> True) hands"

text \<open>The players with the ranks of their hands on one street, in iteration order.\<close>

definition street_ranks ::
  "LookupTable \<Rightarrow> Card \<Rightarrow> int list \<Rightarrow> ('p \<times> int list) list \<Rightarrow> ('p \<times> int) list" where
  "street_ranks T C board_so_far hands =
     map (\<lambda>(player, hand). (player, projr (evaluate T C hand board_so_far))) hands"

text \<open>
  The class boundaries ascend, and \<open>MAX_TO_RANK_CLASS\<close> gives them ascending class
  indices.
\<close>

definition boundaries :: "LookupTable \<Rightarrow> int list" where
  "boundaries T =
     [MAX_ROYAL_FLUSH T, MAX_STRAIGHT_FLUSH T, MAX_FOUR_OF_A_KIND T, MAX_FULL_HOUSE T,
      MAX_FLUSH T, MAX_STRAIGHT T, MAX_THREE_OF_A_KIND T, MAX_TWO_PAIR T, MAX_PAIR T,
      MAX_HIGH_CARD]"

definition boundaries_ascend :: "LookupTable \<Rightarrow> bool" where
  "boundaries_ascend T = sorted (boundaries T)"

definition classes_ascend :: "LookupTable \<Rightarrow> bool" where
  "classes_ascend T =
     (case those (map (MAX_TO_RANK_CLASS T) (boundaries T)) of
        None \<Rightarrow> False
      | Some cs \<Rightarrow> sorted cs)"

subsection \<open>A concrete table and codec for the worked examples\<close>

text \<open>
  Modelled from the spec: \<open>Card.prime_product_from_hand\<close> is defined in treys/card.py.
  The spec describes it as the product of each card's embedded rank prime; \<open>prime\<close>
  reads the embedded prime of one card.
\<close>

definition spec_prime_product_from_hand :: "(int \<Rightarrow> int) \<Rightarrow> int list \<Rightarrow> int" where
  "spec_prime_product_from_hand prime cards = prod_list (map prime cards)"

text \<open>
  The examples use Cactus Kev's card layout, which the masks of \<open>_five\<close> presuppose:
  the rank's prime in the low byte, the one-hot suit in bits 12 to 15, the one-hot rank
  in bits 16 to 28. The primes of the ranks deuce to ace are 2, 3, 5, ..., 41.
\<close>

definition PRIMES :: "int list" where
  "PRIMES = [2, 3, 5, 7, 11, 13, 17, 19, 23, 29, 31, 37, 41]"

definition example_card :: Card where
  "example_card =
     \<lparr> prime_product_from_rankbits =
         (\<lambda>rankbits. fold (\<lambda>i product.
              if rankbits AND push_bit i 1 \<noteq> 0 then product * PRIMES ! i else product)
            [0 ..< 13] 1),
       prime_product_from_hand = spec_prime_product_from_hand (\<lambda>c. c AND 0xFF) \<rparr>"

text \<open>
  A table with the standard class boundaries and with the entries the examples look
  up: the royal flush (rank 1); four deuces with a trey (166), deuces full of treys
  (322), treys full of deuces (310), treys and deuces with a four (3325), three treys
  with a four and a deuce (2401), four treys with a four (153) or a deuce (154), each
  under the product of its five primes.
\<close>

definition example_table :: LookupTable where
  "example_table =
     \<lparr> MAX_ROYAL_FLUSH = 1, MAX_STRAIGHT_FLUSH = 10, MAX_FOUR_OF_A_KIND = 166,
       MAX_FULL_HOUSE = 322, MAX_FLUSH = 1599, MAX_STRAIGHT = 1609,
       MAX_THREE_OF_A_KIND = 2467, MAX_TWO_PAIR = 3325, MAX_PAIR = 6185,
       MAX_TO_RANK_CLASS = map_of
         [(1, 0), (10, 1), (166, 2), (322, 3), (1599, 4), (1609, 5), (2467, 6),
          (3325, 7), (6185, 8), (7462, 9)],
       RANK_CLASS_TO_STRING = map_of
         [(0, ''Royal Flush''), (1, ''Straight Flush''), (2, ''Four of a Kind''),
          (3, ''Full House''), (4, ''Flush''), (5, ''Straight''),
          (6, ''Three of a Kind''), (7, ''Two Pair''), (8, ''Pair''), (9, ''High Card'')],
       flush_lookup = map_of [(31367009, 1)],
       unsuited_lookup = map_of
         [(48, 166), (72, 322), (108, 310), (180, 3325), (270, 2401), (405, 153),
          (162, 154)] \<rparr>"

text \<open>The cards of the examples, encoded.\<close>

definition c2c :: int where "c2c = 98306"
definition c2d :: int where "c2d = 81922"
definition c2h :: int where "c2h = 73730"
definition c2s :: int where "c2s = 69634"
definition c3c :: int where "c3c = 164099"
definition c3d :: int where "c3d = 147715"
definition c3h :: int where "c3h = 139523"
definition c3s :: int where "c3s = 135427"
definition c4c :: int where "c4c = 295429"
definition cTs :: int where "cTs = 16783383"
definition cJs :: int where "cJs = 33560861"
definition cQs :: int where "cQs = 67115551"
definition cKs :: int where "cKs = 134224677"
definition cAs :: int where "cAs = 268442665"

section \<open>Properties\<close>

subsection \<open>The five-card scorer\<close>

lemma length_five_cases:
  assumes "length cards = 5"
  obtains a b c d e where "cards = [a, b, c, d, e]"
proof -
  from assms obtain a r1 where 1: "cards = a # r1" "length r1 = 4" by (cases cards) auto
  then obtain b r2 where 2: "r1 = b # r2" "length r2 = 3" by (cases r1) auto
  then obtain c r3 where 3: "r2 = c # r3" "length r3 = 2" by (cases r2) auto
  then obtain d r4 where 4: "r3 = d # r4" "length r4 = 1" by (cases r3) auto
  then obtain e where 5: "r4 = [e]" by (cases r4) auto
  from 1 2 3 4 5 that show thesis by simp
qed

text \<open>
  Masking the AND of the cards with \<open>0xF000\<close> is the AND of the masked cards, and
  shifting the OR of the cards is the OR of the shifted cards.
\<close>

lemma and_all_suit_fields:
  "and_all (map suit_field [a, b, c, d, e]) = ((((a AND b) AND c) AND d) AND e) AND 0xF000"
  by (simp add: and_all_def suit_field_def bit_eq_iff bit_and_iff) blast

lemma or_all_rank_bits:
  "or_all (map rank_bits [a, b, c, d, e]) = drop_bit 16 ((((a OR b) OR c) OR d) OR e)"
  by (simp add: or_all_def rank_bits_def ac_simps)

lemma five_eq_spec_score_five:
  assumes "length cards = 5"
  shows "five T C cards = spec_score_five T C cards"
proof -
  from assms obtain a b c d e where cards: "cards = [a, b, c, d, e]"
    by (rule length_five_cases)
  show ?thesis
    unfolding cards spec_score_five_def and_all_suit_fields or_all_rank_bits
    by (simp add: five_def Let_def)
qed

text \<open>
  Claim C1. On exactly five cards the scorer returns the entry of \<open>flush_lookup\<close>
  under the prime product of the OR of the cards' rank-bit fields when the AND of the
  five suit fields is nonzero, and otherwise the entry of \<open>unsuited_lookup\<close> under
  \<open>prime_product_from_hand\<close> of the five cards. A missing entry is the KeyError of the
  table in both the scorer and the right-hand side.
\<close>

theorem five_flush_or_unsuited:
  assumes "length cards = 5"
  shows "five T C cards =
           (if and_all (map suit_field cards) \<noteq> 0
            then table_get (flush_lookup T)
                   (prime_product_from_rankbits C (or_all (map rank_bits cards)))
            else table_get (unsuited_lookup T) (prime_product_from_hand C cards))"
  using assms by (simp add: five_eq_spec_score_five spec_score_five_def)

theorem five_flush_or_unsuited_witness:
  "length [cAs, cKs, cQs, cJs, cTs] = 5
   \<and> and_all (map suit_field [cAs, cKs, cQs, cJs, cTs]) = 0x1000
   \<and> or_all (map rank_bits [cAs, cKs, cQs, cJs, cTs]) = 0x1F00
   \<and> five example_table example_card [cAs, cKs, cQs, cJs, cTs] = Inr 1"
proof -
  have len: "length [cAs, cKs, cQs, cJs, cTs] = 5" by simp
  have suits: "and_all (map suit_field [cAs, cKs, cQs, cJs, cTs]) = 0x1000"
    by (simp add: and_all_def suit_field_def cAs_def cKs_def cQs_def cJs_def cTs_def)
  have ranks: "or_all (map rank_bits [cAs, cKs, cQs, cJs, cTs]) = 0x1F00"
    by (simp add: or_all_def rank_bits_def cAs_def cKs_def cQs_def cJs_def cTs_def)
  have "five example_table example_card [cAs, cKs, cQs, cJs, cTs] = Inr 1"
    unfolding five_flush_or_unsuited [OF len] suits ranks
    by (simp add: example_table_def example_card_def table_get_def PRIMES_def upt_rec)
  with len suits ranks show ?thesis by simp
qed

subsection \<open>Order of the cards\<close>

lemma and_all_mset: "mset xs = mset ys \<Longrightarrow> and_all xs = and_all ys"
  unfolding and_all_def
  by (rule fun_cong [OF fold_multiset_equiv]) (auto simp: fun_eq_iff ac_simps)

lemma or_all_mset: "mset xs = mset ys \<Longrightarrow> or_all xs = or_all ys"
  unfolding or_all_def
  by (rule fun_cong [OF fold_multiset_equiv]) (auto simp: fun_eq_iff ac_simps)

lemma spec_prime_product_mset:
  assumes "mset xs = mset ys"
  shows "spec_prime_product_from_hand prime xs = spec_prime_product_from_hand prime ys"
proof -
  have "prod_mset (mset (map prime xs)) = prod_mset (mset (map prime ys))"
    using assms by simp
  then show ?thesis
    by (simp only: spec_prime_product_from_hand_def prod_mset_prod_list)
qed

text \<open>
  Claim C10. The five-card scorer does not depend on the order of its five cards: a
  rearrangement \<open>ys\<close> of \<open>xs\<close> (the same cards with the same multiplicities) gets the same
  result, rank or error. The AND of the suit fields and the OR of the rank bits are
  those of \<open>_five\<close>; the prime product of the hand is the specification's product of
  the cards' primes, for any way \<open>prime\<close> of reading a card's prime.
\<close>

theorem five_permutation_invariant:
  assumes "length xs = 5" and "mset ys = mset xs"
  shows "five T (C\<lparr>prime_product_from_hand := spec_prime_product_from_hand prime\<rparr>) ys
       = five T (C\<lparr>prime_product_from_hand := spec_prime_product_from_hand prime\<rparr>) xs"
proof -
  from assms have len: "length ys = 5" by (metis size_mset)
  have "mset (map suit_field ys) = mset (map suit_field xs)"
       "mset (map rank_bits ys) = mset (map rank_bits xs)"
    using assms(2) by simp_all
  then have "and_all (map suit_field ys) = and_all (map suit_field xs)"
        and "or_all (map rank_bits ys) = or_all (map rank_bits xs)"
    by (auto intro: and_all_mset or_all_mset)
  moreover have "spec_prime_product_from_hand prime ys = spec_prime_product_from_hand prime xs"
    using assms(2) by (rule spec_prime_product_mset)
  ultimately show ?thesis
    by (simp add: five_eq_spec_score_five len assms(1) spec_score_five_def)
qed

theorem five_permutation_invariant_witness:
  "length [c2c, c2d, c2h, c2s, c3c] = 5
   \<and> mset [c3c, c2s, c2c, c2h, c2d] = mset [c2c, c2d, c2h, c2s, c3c]
   \<and> five example_table
        (example_card\<lparr>prime_product_from_hand := spec_prime_product_from_hand (\<lambda>c. c AND 0xFF)\<rparr>)
        [c3c, c2s, c2c, c2h, c2d] = Inr 166"
proof -
  have len: "length [c2c, c2d, c2h, c2s, c3c] = 5" by simp
  have perm: "mset [c3c, c2s, c2c, c2h, c2d] = mset [c2c, c2d, c2h, c2s, c3c]"
    by (simp add: add_mset_commute)
  have "five example_table
          (example_card\<lparr>prime_product_from_hand := spec_prime_product_from_hand (\<lambda>c. c AND 0xFF)\<rparr>)
          [c2c, c2d, c2h, c2s, c3c] = Inr 166"
    by (simp add: five_def example_table_def example_card_def table_get_def
        spec_prime_product_from_hand_def c2c_def c2d_def c2h_def c2s_def c3c_def)
  with len perm five_permutation_invariant [OF len perm, where T = example_table
      and C = example_card and prime = "\<lambda>c. c AND 0xFF"]
  show ?thesis by simp
qed

subsection \<open>Best of six or seven cards\<close>

lemma subsets_of_size_0: "subsets_of_size 0 xs = [[]]"
  by (induction xs) (simp_all add: subsets_of_size_def Let_def filter_map comp_def)

lemma subsets_of_size_Nil_Suc: "subsets_of_size (Suc k) [] = []"
  by (simp add: subsets_of_size_def)

lemma subsets_of_size_Cons_Suc:
  "subsets_of_size (Suc k) (x # xs) =
     map ((#) x) (subsets_of_size k xs) @ subsets_of_size (Suc k) xs"
  by (simp add: subsets_of_size_def Let_def filter_map comp_def)

text \<open>
  \<open>itertools.combinations\<close> enumerates exactly the subsequences of the given length,
  each position set once.
\<close>

lemma combinations_eq_subsets: "combinations xs k = subsets_of_size k xs"
  by (induction xs k rule: combinations.induct)
    (simp_all add: subsets_of_size_0 subsets_of_size_Nil_Suc subsets_of_size_Cons_Suc)

lemma length_combinations: "length (combinations xs k) = length xs choose k"
  by (induction xs k rule: combinations.induct) simp_all

lemma subsets_of_size_iff:
  "ys \<in> set (subsets_of_size k xs) \<longleftrightarrow> subseq ys xs \<and> length ys = k"
  by (auto simp: subsets_of_size_def set_subseqs_eq)

lemma finite_scores: "finite (scores T C combos)"
proof -
  have "scores T C combos \<subseteq> (\<lambda>c. projr (five T C c)) ` set combos"
    by (force simp: scores_def)
  then show ?thesis by (rule finite_subset) simp
qed

lemma scores_Nil: "scores T C [] = {}"
  by (simp add: scores_def)

lemma scores_Cons:
  "five T C c = Inr r \<Longrightarrow> scores T C (c # combos) = insert r (scores T C combos)"
  by (auto simp: scores_def)

text \<open>
  When no call of \<open>_five\<close> raises, the loop returns the least of the starting minimum
  and the scores.
\<close>

lemma best_loop_Min:
  assumes "list_all (\<lambda>c. \<exists>r. five T C c = Inr r) combos"
  shows "best_loop T C combos m = Inr (Min (insert m (scores T C combos)))"
  using assms
proof (induction combos arbitrary: m)
  case Nil
  show ?case by (simp add: scores_Nil)
next
  case (Cons c combos)
  from Cons.prems obtain r where r: "five T C c = Inr r"
    and rest: "list_all (\<lambda>c. \<exists>r. five T C c = Inr r) combos" by auto
  have fin: "finite (scores T C combos)" by (rule finite_scores)
  have "best_loop T C (c # combos) m = best_loop T C combos (min r m)"
    by (simp add: r min_def)
  also have "\<dots> = Inr (Min (insert (min r m) (scores T C combos)))"
    by (rule Cons.IH [OF rest])
  also have "Min (insert (min r m) (scores T C combos)) = Min (insert m (insert r (scores T C combos)))"
    using fin by (cases "scores T C combos = {}") (simp_all add: ac_simps)
  finally show ?case by (simp add: scores_Cons [OF r])
qed

lemma ranks_validD:
  assumes "ranks_valid T C combos" and "c \<in> set combos"
  shows "\<exists>r. five T C c = Inr r \<and> 1 \<le> r \<and> r \<le> 7462"
  using assms by (cases "five T C c") (auto simp: ranks_valid_def list_all_iff)

lemma ranks_valid_all_scored:
  "ranks_valid T C combos \<Longrightarrow> list_all (\<lambda>c. \<exists>r. five T C c = Inr r) combos"
  unfolding list_all_iff using ranks_validD by blast

text \<open>A legal rank is never worse than the starting minimum \<open>MAX_HIGH_CARD\<close>.\<close>

lemma ranks_valid_scores_le:
  assumes "ranks_valid T C combos" and "combos \<noteq> []"
  shows "Min (insert MAX_HIGH_CARD (scores T C combos)) = Min (scores T C combos)"
proof -
  from assms(2) obtain c where c: "c \<in> set combos" by (cases combos) auto
  with assms(1) obtain r where r: "five T C c = Inr r" "r \<le> 7462"
    using ranks_validD by blast
  with c have mem: "r \<in> scores T C combos" by (auto simp: scores_def)
  have fin: "finite (scores T C combos)" by (rule finite_scores)
  from mem fin have "Min (scores T C combos) \<le> r" by simp
  with r(2) have le: "Min (scores T C combos) \<le> MAX_HIGH_CARD"
    by (simp add: MAX_HIGH_CARD_def)
  from mem have ne: "scores T C combos \<noteq> {}" by auto
  from fin ne have "Min (insert MAX_HIGH_CARD (scores T C combos))
      = min MAX_HIGH_CARD (Min (scores T C combos))" by (rule Min_insert)
  with le show ?thesis by (simp add: min_def)
qed

lemma best_loop_valid:
  assumes "ranks_valid T C combos" and "combos \<noteq> []"
  shows "best_loop T C combos MAX_HIGH_CARD = Inr (Min (scores T C combos))"
  using best_loop_Min [OF ranks_valid_all_scored [OF assms(1)], of MAX_HIGH_CARD]
    ranks_valid_scores_le [OF assms] by simp

text \<open>
  Claim C2. When hand and board together have 6 or 7 cards and every five-card subset
  is scored with a rank between 1 and 7462, \<open>evaluate\<close> returns the minimum of the
  five-card scorer over all five-card subsets of the cards, and there are
  \<open>n choose 5\<close> of them.
\<close>

theorem evaluate_best_of_subsets:
  assumes "length (hand @ board) \<in> {6, 7}"
    and "ranks_valid T C (subsets_of_size 5 (hand @ board))"
  shows "evaluate T C hand board = Inr (Min (scores T C (subsets_of_size 5 (hand @ board))))
       \<and> length (subsets_of_size 5 (hand @ board)) = length (hand @ board) choose 5"
proof -
  let ?cards = "hand @ board"
  have len: "length (subsets_of_size 5 ?cards) = length ?cards choose 5"
    by (simp only: combinations_eq_subsets [symmetric] length_combinations)
  from assms(1) have "length ?cards choose 5 \<noteq> 0" by auto
  with len have ne: "subsets_of_size 5 ?cards \<noteq> []" by (metis length_0_conv)
  have "best_loop T C (combinations ?cards 5) MAX_HIGH_CARD
          = Inr (Min (scores T C (subsets_of_size 5 ?cards)))"
    unfolding combinations_eq_subsets using assms(2) ne by (rule best_loop_valid)
  with assms(1) have "evaluate T C hand board = Inr (Min (scores T C (subsets_of_size 5 ?cards)))"
    by (auto simp: evaluate_def six_def seven_def Let_def)
  with len show ?thesis by simp
qed

lemmas example_cards =
  c2c_def c2d_def c2h_def c2s_def c3c_def c3d_def c3h_def c3s_def c4c_def

lemma example_valid:
  "ranks_valid example_table example_card
     (subsets_of_size 5 ([c2c, c2d] @ [c2h, c2s, c3c, c3d, c3h]))"
  unfolding combinations_eq_subsets [symmetric]
  by (simp add: ranks_valid_def numeral_eq_Suc five_def example_table_def example_card_def
      table_get_def spec_prime_product_from_hand_def example_cards)

lemma example_evaluate:
  "evaluate example_table example_card [c2c, c2d] [c2h, c2s, c3c, c3d, c3h] = Inr 166"
  by (simp add: evaluate_def seven_def MAX_HIGH_CARD_def five_def example_table_def
      example_card_def table_get_def spec_prime_product_from_hand_def example_cards
      numeral_eq_Suc)

theorem evaluate_best_of_subsets_witness:
  "length ([c2c, c2d] @ [c2h, c2s, c3c, c3d, c3h]) \<in> {6, 7}
   \<and> ranks_valid example_table example_card
        (subsets_of_size 5 ([c2c, c2d] @ [c2h, c2s, c3c, c3d, c3h]))
   \<and> evaluate example_table example_card [c2c, c2d] [c2h, c2s, c3c, c3d, c3h] = Inr 166
   \<and> Min (scores example_table example_card
              (subsets_of_size 5 ([c2c, c2d] @ [c2h, c2s, c3c, c3d, c3h]))) = 166
   \<and> length (subsets_of_size 5 ([c2c, c2d] @ [c2h, c2s, c3c, c3d, c3h])) = 21"
proof -
  have len: "length ([c2c, c2d] @ [c2h, c2s, c3c, c3d, c3h]) \<in> {6, 7}" by simp
  note best = evaluate_best_of_subsets [OF len example_valid]
  have count: "length ([c2c, c2d] @ [c2h, c2s, c3c, c3d, c3h]) choose 5 = 21"
    by (simp add: eval_nat_numeral)
  have "length (subsets_of_size 5 ([c2c, c2d] @ [c2h, c2s, c3c, c3d, c3h])) = 21"
    using best [THEN conjunct2] count by (rule trans)
  moreover have "Min (scores example_table example_card
      (subsets_of_size 5 ([c2c, c2d] @ [c2h, c2s, c3c, c3d, c3h]))) = 166"
    using best [THEN conjunct1] example_evaluate by simp
  ultimately show ?thesis
    using len example_valid example_evaluate by blast
qed

subsection \<open>The Omaha evaluator\<close>

lemma best_loop_append:
  "best_loop T C (xs @ ys) m =
     (case best_loop T C xs m of Inl e \<Rightarrow> Inl e | Inr m' \<Rightarrow> best_loop T C ys m')"
  by (induction xs arbitrary: m) (simp_all split: sum.split)

lemma plo_board_loop_best_loop:
  "plo_board_loop T C hand_combo board_combos m =
     best_loop T C (map (\<lambda>board_combo. board_combo @ hand_combo) board_combos) m"
  by (induction board_combos arbitrary: m) (simp_all split: sum.split)

lemma plo_hand_loop_best_loop:
  "plo_hand_loop T C hand_combos board m =
     best_loop T C
       (concat (map (\<lambda>hand_combo. map (\<lambda>board_combo. board_combo @ hand_combo)
                       (combinations board 3)) hand_combos)) m"
  by (induction hand_combos arbitrary: m)
    (simp_all add: best_loop_append plo_board_loop_best_loop split: sum.split)

text \<open>
  The two nested loops score the Omaha candidates, in order, and nothing else.
\<close>

lemma plo_evaluate_best_loop:
  "plo_evaluate T C hand board = best_loop T C (omaha_candidates hand board) MAX_HIGH_CARD"
  by (simp add: plo_evaluate_def plo_hand_loop_best_loop omaha_candidates_def
      combinations_eq_subsets)

lemma length_omaha_candidates:
  "length (omaha_candidates hand board) = (length hand choose 2) * (length board choose 3)"
proof -
  have "length (omaha_candidates hand board)
          = length (subsets_of_size 2 hand) * length (subsets_of_size 3 board)"
    by (simp add: omaha_candidates_def length_concat comp_def sum_list_triv)
  then show ?thesis
    by (simp only: combinations_eq_subsets [symmetric] length_combinations)
qed

text \<open>
  Claim C3. For four hole cards and a board of five cards, when every candidate is
  scored with a rank between 1 and 7462, the Omaha \<open>evaluate\<close> returns the minimum of
  the five-card scorer over the 60 candidates made of a two-card subset of the hand and
  a three-card subset of the board. Every hand it scores has exactly three board cards
  followed by exactly two hole cards, so none uses three or more hole cards.
\<close>

theorem plo_evaluate_two_hole_three_board:
  assumes "length hand = 4" and "length board = 5"
    and "ranks_valid T C (omaha_candidates hand board)"
  shows "plo_evaluate T C hand board = Inr (Min (scores T C (omaha_candidates hand board)))
       \<and> length (omaha_candidates hand board) = 60
       \<and> list_all (omaha_shaped hand board) (omaha_candidates hand board)"
proof -
  have len: "length (omaha_candidates hand board) = 60"
    by (simp add: length_omaha_candidates assms(1,2) eval_nat_numeral)
  then have ne: "omaha_candidates hand board \<noteq> []" by auto
  have shaped: "list_all (omaha_shaped hand board) (omaha_candidates hand board)"
    by (auto simp: list_all_iff omaha_candidates_def omaha_shaped_def subsets_of_size_iff)
  from assms(3) ne have "best_loop T C (omaha_candidates hand board) MAX_HIGH_CARD
      = Inr (Min (scores T C (omaha_candidates hand board)))"
    by (rule best_loop_valid)
  with len shaped show ?thesis by (simp add: plo_evaluate_best_loop)
qed

lemma plo_example_valid:
  "ranks_valid example_table example_card
     (omaha_candidates [c2c, c2d, c2h, c2s] [c3c, c3d, c3h, c3s, c4c])"
  unfolding omaha_candidates_def combinations_eq_subsets [symmetric]
  by (simp add: ranks_valid_def numeral_eq_Suc five_def example_table_def example_card_def
      table_get_def spec_prime_product_from_hand_def example_cards)

lemma plo_example_evaluate:
  "plo_evaluate example_table example_card [c2c, c2d, c2h, c2s] [c3c, c3d, c3h, c3s, c4c]
     = Inr 310"
  by (simp add: plo_evaluate_def MAX_HIGH_CARD_def five_def example_table_def
      example_card_def table_get_def spec_prime_product_from_hand_def example_cards
      numeral_eq_Suc)

text \<open>
  With the four deuces in the hand, the best Omaha hand is treys full of deuces (310):
  the four deuces cannot be played together.
\<close>

theorem plo_evaluate_two_hole_three_board_witness:
  "length [c2c, c2d, c2h, c2s] = 4 \<and> length [c3c, c3d, c3h, c3s, c4c] = 5
   \<and> ranks_valid example_table example_card
        (omaha_candidates [c2c, c2d, c2h, c2s] [c3c, c3d, c3h, c3s, c4c])
   \<and> plo_evaluate example_table example_card [c2c, c2d, c2h, c2s] [c3c, c3d, c3h, c3s, c4c]
       = Inr 310
   \<and> Min (scores example_table example_card
              (omaha_candidates [c2c, c2d, c2h, c2s] [c3c, c3d, c3h, c3s, c4c])) = 310"
proof -
  have l1: "length [c2c, c2d, c2h, c2s] = 4" and l2: "length [c3c, c3d, c3h, c3s, c4c] = 5"
    by simp_all
  from plo_evaluate_two_hole_three_board [OF l1 l2 plo_example_valid] plo_example_valid
    plo_example_evaluate
  show ?thesis by simp
qed

subsection \<open>Rank classes\<close>

text \<open>
  Claim C4. The claim asks for an error on every rank outside 1 to 7462. The chain
  raises above 7462, but a negative rank fails only the first test, whose guard
  \<open>hr >= 0\<close> the following \<open>elif\<close> does not repeat: rank \<open>-1\<close> gets the class of
  \<open>MAX_STRAIGHT_FLUSH\<close>.
\<close>

theorem get_rank_class_negative_rank: "get_rank_class example_table (- 1) = Inr 1"
  by (simp add: get_rank_class_def example_table_def rank_class_of_def)

text \<open>Rank 0 passes the guard and gets the class of \<open>MAX_ROYAL_FLUSH\<close>.\<close>

lemma get_rank_class_zero_rank: "get_rank_class example_table 0 = Inr 0"
  by (simp add: get_rank_class_def example_table_def rank_class_of_def)

lemma get_rank_class_above_max: "7462 < hr \<Longrightarrow> get_rank_class example_table hr = Inl InvalidHandRank"
  by (simp add: get_rank_class_def example_table_def MAX_HIGH_CARD_def)

lemma classes_ascendD:
  assumes "classes_ascend T"
  obtains c0 c1 c2 c3 c4 c5 c6 c7 c8 c9 where
    "rank_class_of T (MAX_ROYAL_FLUSH T) = Inr c0"
    "rank_class_of T (MAX_STRAIGHT_FLUSH T) = Inr c1"
    "rank_class_of T (MAX_FOUR_OF_A_KIND T) = Inr c2"
    "rank_class_of T (MAX_FULL_HOUSE T) = Inr c3"
    "rank_class_of T (MAX_FLUSH T) = Inr c4"
    "rank_class_of T (MAX_STRAIGHT T) = Inr c5"
    "rank_class_of T (MAX_THREE_OF_A_KIND T) = Inr c6"
    "rank_class_of T (MAX_TWO_PAIR T) = Inr c7"
    "rank_class_of T (MAX_PAIR T) = Inr c8"
    "rank_class_of T MAX_HIGH_CARD = Inr c9"
    "sorted [c0, c1, c2, c3, c4, c5, c6, c7, c8, c9]"
  using assms
  by (auto simp: classes_ascend_def boundaries_def rank_class_of_def split: option.splits)

text \<open>
  Claim C8. \<open>get_rank_class\<close> is a function of the table's constants and the rank
  alone. When the boundary constants ascend and \<open>MAX_TO_RANK_CLASS\<close> maps them to
  ascending class indices, ranks \<open>r1 \<le> r2\<close> between 1 and 7462 both get a class, and the
  class of \<open>r1\<close> is at most the class of \<open>r2\<close>.
\<close>

theorem get_rank_class_monotone:
  assumes "boundaries_ascend T" and "classes_ascend T"
    and "1 \<le> r1" and "r1 \<le> r2" and "r2 \<le> 7462"
  shows "\<exists>c1 c2. get_rank_class T r1 = Inr c1 \<and> get_rank_class T r2 = Inr c2 \<and> c1 \<le> c2"
proof -
  from assms(2) obtain c0 c1 c2 c3 c4 c5 c6 c7 c8 c9 where c:
    "rank_class_of T (MAX_ROYAL_FLUSH T) = Inr c0"
    "rank_class_of T (MAX_STRAIGHT_FLUSH T) = Inr c1"
    "rank_class_of T (MAX_FOUR_OF_A_KIND T) = Inr c2"
    "rank_class_of T (MAX_FULL_HOUSE T) = Inr c3"
    "rank_class_of T (MAX_FLUSH T) = Inr c4"
    "rank_class_of T (MAX_STRAIGHT T) = Inr c5"
    "rank_class_of T (MAX_THREE_OF_A_KIND T) = Inr c6"
    "rank_class_of T (MAX_TWO_PAIR T) = Inr c7"
    "rank_class_of T (MAX_PAIR T) = Inr c8"
    "rank_class_of T MAX_HIGH_CARD = Inr c9"
    and s: "sorted [c0, c1, c2, c3, c4, c5, c6, c7, c8, c9]"
    by (rule classes_ascendD)
  from assms(1) have b: "sorted (boundaries T)" by (simp add: boundaries_ascend_def)
  show ?thesis
    using assms(3-5) b s c unfolding get_rank_class_def boundaries_def MAX_HIGH_CARD_def
    by (simp split: if_splits)
qed

theorem get_rank_class_monotone_witness:
  "boundaries_ascend example_table \<and> classes_ascend example_table
   \<and> (1 :: int) \<le> 166 \<and> (166 :: int) \<le> 167 \<and> (167 :: int) \<le> 7462
   \<and> get_rank_class example_table 166 = Inr 2 \<and> get_rank_class example_table 167 = Inr 3
   \<and> (\<exists>c1 c2. get_rank_class example_table 166 = Inr c1
         \<and> get_rank_class example_table 167 = Inr c2 \<and> c1 \<le> c2)"
proof -
  have b: "boundaries_ascend example_table"
    by (simp add: boundaries_ascend_def boundaries_def example_table_def MAX_HIGH_CARD_def)
  have c: "classes_ascend example_table"
    by (simp add: classes_ascend_def boundaries_def example_table_def MAX_HIGH_CARD_def)
  have "get_rank_class example_table 166 = Inr 2" "get_rank_class example_table 167 = Inr 3"
    by (simp_all add: get_rank_class_def example_table_def rank_class_of_def)
  with b c get_rank_class_monotone [OF b c, of 166 167] show ?thesis by simp
qed

subsection \<open>The rank percentage\<close>

lemma round53_1: "round53 1 = 1"
  by (simp add: round53_def floor_log2_def bit_length.simps round_half_even_def
      power_int_minus)

lemma round53_7462: "round53 7462 = 7462"
  by (simp add: round53_def floor_log2_def bit_length.simps round_half_even_def
      power_int_minus)

lemma floor_log2_best: "floor_log2 (1 / 7462) = - 13"
  by (simp add: floor_log2_def bit_length.simps)

lemma round53_best: "round53 (1 / 7462) = 309011392282725 / 2 ^ 61"
  by (simp add: round53_def floor_log2_best round_half_even_def power_int_minus Let_def)

lemma py_float_1: "py_float 1 = Inr 1"
  by (simp add: py_float_def round53_1)

lemma py_float_7462: "py_float 7462 = Inr 7462"
  by (simp add: py_float_def round53_7462)

lemma py_float_MAX_HIGH_CARD: "py_float MAX_HIGH_CARD = Inr 7462"
  by (simp add: MAX_HIGH_CARD_def py_float_7462)

lemma percentage_best: "get_five_card_rank_percentage 1 = Inr (309011392282725 / 2 ^ 61)"
  by (simp add: get_five_card_rank_percentage_def py_float_MAX_HIGH_CARD py_float_1
      float_div_def round53_best)

text \<open>
  \<open>bit_length\<close> and \<open>floor_log2\<close> bracket their argument between two powers of 2.
\<close>

lemma bit_length_pos: "0 < n \<Longrightarrow> bit_length n = Suc (bit_length (n div 2))"
  by (subst bit_length.simps) simp

lemma bit_length_nonpos: "n \<le> 0 \<Longrightarrow> bit_length n = 0"
  by (subst bit_length.simps) simp

lemma bit_length_bounds:
  "0 < n \<Longrightarrow> 2 ^ (bit_length n - 1) \<le> n \<and> n < 2 ^ bit_length n"
proof (induction n rule: bit_length.induct)
  case (1 n)
  show ?case
  proof (cases "n = 1")
    case True
    have "bit_length 1 = 1" by (simp add: bit_length.simps)
    with True show ?thesis by simp
  next
    case False
    with "1.prems" have half: "0 < n div 2" by simp
    from "1.prems" have "\<not> n \<le> 0" by simp
    from "1.IH" [OF this half]
    have lo: "2 ^ (bit_length (n div 2) - 1) \<le> n div 2"
      and hi: "n div 2 < 2 ^ bit_length (n div 2)" by simp_all
    from half have k: "bit_length (n div 2) = Suc (bit_length (n div 2) - 1)"
      by (simp add: bit_length_pos)
    have bl: "bit_length n = Suc (bit_length (n div 2))"
      using "1.prems" by (rule bit_length_pos)
    have "(2 :: int) ^ bit_length (n div 2) = 2 * 2 ^ (bit_length (n div 2) - 1)"
      by (subst k) simp
    with lo have "2 ^ bit_length (n div 2) \<le> 2 * (n div 2)" by simp
    also have "\<dots> \<le> n" by simp
    finally have a: "2 ^ (bit_length n - 1) \<le> n" by (simp add: bl)
    from hi have "n div 2 + 1 \<le> 2 ^ bit_length (n div 2)" by simp
    then have "2 * (n div 2) + 2 \<le> 2 ^ bit_length n" by (simp add: bl)
    moreover have "n < 2 * (n div 2) + 2" by presburger
    ultimately have "n < 2 ^ bit_length n" by linarith
    with a show ?thesis by simp
  qed
qed

lemma floor_log2_bounds:
  assumes "0 < x"
  shows "2 powi floor_log2 x \<le> x \<and> x < 2 powi (floor_log2 x + 1)"
proof (cases "1 \<le> x")
  case True
  then have n: "0 < \<lfloor>x\<rfloor>" by simp
  let ?k = "bit_length \<lfloor>x\<rfloor>"
  from bit_length_bounds [OF n] have lo: "2 ^ (?k - 1) \<le> \<lfloor>x\<rfloor>" and hi: "\<lfloor>x\<rfloor> < 2 ^ ?k"
    by simp_all
  from n have kpos: "0 < ?k" by (simp add: bit_length_pos)
  have e: "floor_log2 x = int ?k - 1" using True by (simp add: floor_log2_def)
  from kpos have e': "floor_log2 x = int (?k - 1)" by (simp add: e)
  from lo have "(2 :: real) ^ (?k - 1) \<le> of_int \<lfloor>x\<rfloor>"
    by (metis of_int_le_iff of_int_numeral of_int_power)
  also have "\<dots> \<le> x" by simp
  finally have a: "2 powi floor_log2 x \<le> x" by (simp add: e')
  from hi have "\<lfloor>x\<rfloor> + 1 \<le> 2 ^ ?k" by simp
  then have "of_int (\<lfloor>x\<rfloor> + 1) \<le> (2 :: real) ^ ?k"
    by (metis of_int_le_iff of_int_numeral of_int_power)
  moreover have "x < of_int (\<lfloor>x\<rfloor> + 1)" by linarith
  ultimately have "x < 2 ^ ?k" by linarith
  then have "x < 2 powi (floor_log2 x + 1)" by (simp add: e)
  with a show ?thesis by simp
next
  case False
  with assms have x1: "x < 1" by simp
  let ?N = "\<lceil>1 / x\<rceil>"
  let ?k = "bit_length (?N - 1)"
  from assms x1 have "1 < 1 / x" by simp
  then have N: "2 \<le> ?N" by linarith
  then have n: "0 < ?N - 1" by simp
  from bit_length_bounds [OF n] have lo: "2 ^ (?k - 1) \<le> ?N - 1" and hi: "?N - 1 < 2 ^ ?k"
    by simp_all
  from n have kpos: "0 < ?k" by (simp add: bit_length_pos)
  have e: "floor_log2 x = - int ?k" using False by (simp add: floor_log2_def)
  from hi have "?N \<le> 2 ^ ?k" by simp
  then have "of_int ?N \<le> (2 :: real) ^ ?k"
    by (metis of_int_le_iff of_int_numeral of_int_power)
  moreover have "1 / x \<le> of_int ?N" by simp
  ultimately have "1 / x \<le> 2 ^ ?k" by linarith
  with assms have "1 / 2 ^ ?k \<le> x"
    by (simp add: field_simps)
  then have a: "2 powi floor_log2 x \<le> x"
    by (simp add: e power_int_minus field_simps)
  from lo have "(2 :: real) ^ (?k - 1) \<le> of_int (?N - 1)"
    by (metis of_int_le_iff of_int_numeral of_int_power)
  moreover have "of_int (?N - 1) < 1 / x" by linarith
  ultimately have "(2 :: real) ^ (?k - 1) < 1 / x" by linarith
  with assms have "x < 1 / 2 ^ (?k - 1)" by (simp add: field_simps)
  moreover have "floor_log2 x + 1 = - int (?k - 1)" using kpos by (simp add: e)
  ultimately have "x < 2 powi (floor_log2 x + 1)"
    by (simp add: power_int_minus field_simps)
  with a show ?thesis by simp
qed


text \<open>
  Rounding a positive number to 53 bits keeps it between the powers of 2 around it,
  and leaves an integer below \<open>2^53\<close> unchanged.
\<close>

lemma round_half_even_bounds:
  "\<lfloor>y\<rfloor> \<le> round_half_even y \<and> round_half_even y \<le> \<lfloor>y\<rfloor> + 1"
  by (simp add: round_half_even_def Let_def)

lemma round_half_even_of_int: "round_half_even (of_int k) = k"
  by (simp add: round_half_even_def Let_def)

lemma round53_bounds:
  assumes "0 < x"
  shows "2 powi floor_log2 x \<le> round53 x \<and> round53 x \<le> 2 powi (floor_log2 x + 1)"
proof -
  define e where "e = floor_log2 x"
  define ulp :: real where "ulp = 2 powi (e - 52)"
  define m where "m = round_half_even (x / ulp)"
  have ulp_pos: "0 < ulp" by (simp add: ulp_def)
  have lo_e: "2 powi e = 2 ^ 52 * ulp"
    by (simp add: ulp_def power_int_diff)
  have hi_e: "2 powi (e + 1) = 2 ^ 53 * ulp"
    by (simp add: ulp_def power_int_diff power_int_add)
  from floor_log2_bounds [OF assms] have x: "2 ^ 52 * ulp \<le> x" "x < 2 ^ 53 * ulp"
    by (simp_all add: e_def [symmetric] lo_e hi_e)
  from x ulp_pos have y: "2 ^ 52 \<le> x / ulp" "x / ulp < 2 ^ 53"
    by (simp_all add: field_simps)
  from y(1) have "(2 :: int) ^ 52 \<le> \<lfloor>x / ulp\<rfloor>" by (simp add: le_floor_iff)
  moreover from y(2) have "\<lfloor>x / ulp\<rfloor> < (2 :: int) ^ 53" by (simp add: floor_less_iff)
  ultimately have m: "2 ^ 52 \<le> m" "m \<le> 2 ^ 53"
    using round_half_even_bounds [of "x / ulp"] unfolding m_def by linarith+
  have r: "round53 x = of_int m * ulp"
    using assms by (simp add: round53_def Let_def m_def ulp_def e_def)
  from m(1) have "(2 :: real) ^ 52 \<le> of_int m"
    by (metis of_int_le_iff of_int_numeral of_int_power)
  with ulp_pos have a: "2 ^ 52 * ulp \<le> of_int m * ulp" by simp
  from m(2) have "of_int m \<le> (2 :: real) ^ 53"
    by (metis of_int_le_iff of_int_numeral of_int_power)
  with ulp_pos have b: "of_int m * ulp \<le> 2 ^ 53 * ulp" by simp
  from a b show ?thesis by (simp add: r e_def [symmetric] lo_e hi_e)
qed

lemma round53_of_int:
  assumes "0 < n" and "n < 2 ^ 53"
  shows "round53 (of_int n) = of_int n"
proof -
  define k where "k = bit_length n"
  from bit_length_bounds [OF assms(1)] have lo: "2 ^ (k - 1) \<le> n" by (simp add: k_def)
  from lo assms(2) have "(2 :: int) ^ (k - 1) < 2 ^ 53" by (rule le_less_trans)
  then have "k - 1 < 53" by (rule power_less_imp_less_exp [rotated]) simp
  then have k: "k \<le> 53" by simp
  from assms(1) have kpos: "0 < k" by (simp add: k_def bit_length_pos)
  from assms(1) have "\<lfloor>real_of_int n\<rfloor> = n" "1 \<le> real_of_int n" by simp_all
  then have e: "floor_log2 (of_int n) = int k - 1" by (simp add: floor_log2_def k_def)
  define j where "j = 53 - k"
  from k have ek: "int k - 1 - 52 = - int j" by (simp add: j_def)
  from e ek have "floor_log2 (of_int n) - 52 = - int j" by simp
  then have ulp: "(2 :: real) powi (floor_log2 (of_int n) - 52) = 1 / 2 ^ j"
    by (simp only: power_int_minus power_int_of_nat) (simp add: field_simps)
  have "real_of_int n / (1 / 2 ^ j) = of_int (n * 2 ^ j)" by simp
  then have "round_half_even (real_of_int n / (1 / 2 ^ j)) = n * 2 ^ j"
    by (simp only: round_half_even_of_int)
  then show ?thesis
    using assms(1) by (simp add: round53_def Let_def ulp)
qed

lemma percentage_returns:
  assumes "\<bar>rank\<bar> < 2 ^ 1024 - 2 ^ 970"
  shows "get_five_card_rank_percentage rank = Inr (round53 (round53 (of_int rank) / 7462))"
proof -
  from assms have "py_float rank = Inr (round53 (of_int rank))"
    by (simp add: py_float_def)
  then show ?thesis
    by (simp add: get_five_card_rank_percentage_def py_float_MAX_HIGH_CARD float_div_def)
qed

text \<open>
  Every rank from 1 to 7462 has a percentage, greater than 0.0 and at most 1.0.
\<close>

lemma percentage_in_unit_interval:
  assumes "1 \<le> rank" and "rank \<le> 7462"
  shows "\<exists>p. get_five_card_rank_percentage rank = Inr p \<and> 0 < p \<and> p \<le> 1"
proof -
  from assms have exact: "round53 (of_int rank) = of_int rank"
    by (intro round53_of_int) simp_all
  from assms have "\<bar>rank\<bar> < 2 ^ 1024 - 2 ^ 970" by simp
  then have p: "get_five_card_rank_percentage rank = Inr (round53 (of_int rank / 7462))"
    by (simp add: percentage_returns exact)
  define x :: real where "x = of_int rank / 7462"
  from assms have x: "0 < x" "x \<le> 1" by (simp_all add: x_def)
  from round53_bounds [OF x(1)] have lo: "2 powi floor_log2 x \<le> round53 x"
    and hi: "round53 x \<le> 2 powi (floor_log2 x + 1)" by simp_all
  have "0 < (2 :: real) powi floor_log2 x" by simp
  with lo have pos: "0 < round53 x" by linarith
  have "round53 x \<le> 1"
  proof (cases "x = 1")
    case True
    then show ?thesis by (simp add: round53_1)
  next
    case False
    with x(2) have "x < 1" by simp
    moreover from floor_log2_bounds [OF x(1)] have "2 powi floor_log2 x \<le> x" by simp
    ultimately have "(2 :: real) powi floor_log2 x < 2 powi 0" by simp
    then have "floor_log2 x < 0" by (rule power_int_le_imp_less_exp [rotated]) simp_all
    then have "(2 :: real) powi (floor_log2 x + 1) \<le> 2 powi 0"
      by (intro power_int_increasing) simp_all
    with hi show ?thesis by simp
  qed
  with pos p show ?thesis by (simp add: x_def)
qed

text \<open>
  Claim C5, as stated, gives \<open>0.0\<close> for the best rank. The quotient of 1 by 7462.0 is
  not zero.
\<close>

theorem rank_percentage_of_best_rank_counterexample:
  "get_five_card_rank_percentage 1 \<noteq> Inr 0"
  by (simp add: percentage_best)

text \<open>
  Claim C5, amended. \<open>get_five_card_rank_percentage\<close> computes the Python expression
  \<open>rank / 7462.0\<close>: the conversion of \<open>rank\<close> to a float, which overflows for the
  integers no double can hold, divided by the double 7462.0. At rank 7462 the result
  is 1.0. At rank 1 it is the double nearest to 1/7462, which is
  \<open>309011392282725 / 2^61\<close> (about 0.000134) and greater than 0.0.
\<close>

theorem rank_percentage_scaling:
  "get_five_card_rank_percentage rank =
     (case py_float rank of Inl e \<Rightarrow> Inl e | Inr x \<Rightarrow> float_div x 7462)
   \<and> get_five_card_rank_percentage 7462 = Inr 1
   \<and> get_five_card_rank_percentage 1 = Inr (309011392282725 / 2 ^ 61)
   \<and> (0 :: real) < 309011392282725 / 2 ^ 61"
  by (simp add: get_five_card_rank_percentage_def py_float_MAX_HIGH_CARD py_float_1
      py_float_7462 float_div_def round53_best round53_1 split: sum.split)

subsection \<open>The street summary\<close>

lemma score_player_evaluate:
  "score_player T C hand b = Inr rank \<Longrightarrow> evaluate T C hand b = Inr rank"
  by (auto simp: score_player_def split: sum.splits)

lemma leader_step:
  "(\<lambda>(p, r) (best, leaders).
       if r < best then (r, [p])
       else if r = best then (best, leaders @ [p])
       else (best, leaders)) = (\<lambda>(p, r). detect_winner p r)"
  by (auto simp: fun_eq_iff detect_winner_def)

lemma players_loop_scored:
  assumes "street_scored T C b hands"
  shows "players_loop T C b hands s
       = Inr (fold (\<lambda>(p, r). detect_winner p r) (street_ranks T C b hands) s)"
  using assms
proof (induction hands arbitrary: s)
  case Nil
  show ?case by (simp add: street_ranks_def)
next
  case (Cons ph hands)
  obtain player hand where ph: "ph = (player, hand)" by (cases ph)
  from Cons.prems obtain rank where rank: "score_player T C hand b = Inr rank"
    and rest: "street_scored T C b hands"
    by (cases "score_player T C hand b") (auto simp: street_scored_def ph)
  from rank have ev: "evaluate T C hand b = Inr rank" by (rule score_player_evaluate)
  have "players_loop T C b (ph # hands) s
          = players_loop T C b hands (detect_winner player rank s)"
    by (simp add: ph rank)
  also have "\<dots> = Inr (fold (\<lambda>(p, r). detect_winner p r) (street_ranks T C b hands)
                        (detect_winner player rank s))"
    by (rule Cons.IH [OF rest])
  finally show ?case by (simp add: street_ranks_def ph ev)
qed

lemma players_loop_leaders:
  assumes "street_scored T C b hands"
  shows "\<exists>best. players_loop T C b hands (7463, [])
            = Inr (best, street_leaders (street_ranks T C b hands))"
  unfolding players_loop_scored [OF assms] street_leaders_def leader_step
  by (metis prod.collapse)

text \<open>
  Claim C6. For a board of 5 cards, when every player's hand is scored on the flop,
  the turn and the river, \<open>hand_summary\<close> returns the leader set of the river, the full
  board: the players' river ranks are folded from the best rank 7463 and no leader, a
  strictly better rank resetting the set to its player and an equal rank appending its
  player. The leaders of the flop and of the turn do not enter the result. The mapping
  may also be empty; the result is then the empty list.
\<close>

theorem hand_summary_river_leaders:
  assumes "length board = 5"
    and "street_scored T C (take 3 board) hands"
    and "street_scored T C (take 4 board) hands"
    and "street_scored T C board hands"
  shows "hand_summary T C board hands = Inr (street_leaders (street_ranks T C board hands))"
proof -
  from players_loop_leaders [OF assms(2)] obtain b0 where
    flop: "players_loop T C (take 3 board) hands (7463, [])
             = Inr (b0, street_leaders (street_ranks T C (take 3 board) hands))" ..
  from players_loop_leaders [OF assms(3)] obtain b1 where
    turn: "players_loop T C (take 4 board) hands (7463, [])
             = Inr (b1, street_leaders (street_ranks T C (take 4 board) hands))" ..
  from players_loop_leaders [OF assms(4)] obtain b2 where
    river: "players_loop T C board hands (7463, [])
             = Inr (b2, street_leaders (street_ranks T C board hands))" ..
  have stages: "[0 ..< 3] = [0, 1, 2 :: nat]" by (simp add: upt_rec)
  show ?thesis
    using assms(1) by (simp add: hand_summary_def BOARD_LENGTH_def stages flop turn river)
qed

lemma score_player_Inr:
  assumes "evaluate T C hand b = Inr rank" and "get_rank_class T rank = Inr c"
    and "class_to_string T c = Inr str" and "\<bar>rank\<bar> < 2 ^ 1024 - 2 ^ 970"
  shows "score_player T C hand b = Inr rank"
  by (simp add: score_player_def assms(1-3) percentage_returns [OF assms(4)])

lemmas example_eval =
  evaluate_def six_def seven_def MAX_HIGH_CARD_def five_def example_table_def
  example_card_def table_get_def spec_prime_product_from_hand_def example_cards
  numeral_eq_Suc

lemma example_classes:
  "get_rank_class example_table 166 = Inr 2" "get_rank_class example_table 3325 = Inr 7"
  "get_rank_class example_table 310 = Inr 3" "get_rank_class example_table 153 = Inr 2"
  "class_to_string example_table 2 = Inr ''Four of a Kind''"
  "class_to_string example_table 7 = Inr ''Two Pair''"
  "class_to_string example_table 3 = Inr ''Full House''"
  by (simp_all add: get_rank_class_def class_to_string_def rank_class_of_def example_table_def)

lemma example_flop:
  "score_player example_table example_card [c2c, c2d] [c2h, c2s, c3c] = Inr 166"
  "score_player example_table example_card [c3s, c4c] [c2h, c2s, c3c] = Inr 3325"
  by (rule score_player_Inr, simp add: example_eval, rule example_classes,
      rule example_classes, simp)+

lemma example_turn:
  "score_player example_table example_card [c2c, c2d] [c2h, c2s, c3c, c3d] = Inr 166"
  "score_player example_table example_card [c3s, c4c] [c2h, c2s, c3c, c3d] = Inr 310"
  by (rule score_player_Inr, simp add: example_eval, rule example_classes,
      rule example_classes, simp)+

lemma example_river:
  "score_player example_table example_card [c2c, c2d] [c2h, c2s, c3c, c3d, c3h] = Inr 166"
  "score_player example_table example_card [c3s, c4c] [c2h, c2s, c3c, c3d, c3h] = Inr 153"
  by (rule score_player_Inr, simp add: example_eval, rule example_classes,
      rule example_classes, simp)+

text \<open>
  The flop and the turn are led by player A (four deuces, 166, against two pair and
  then a full house); on the river player B makes four treys (153) and is the only
  player returned.
\<close>

theorem hand_summary_river_leaders_witness:
  "length [c2h, c2s, c3c, c3d, c3h] = 5
   \<and> street_scored example_table example_card (take 3 [c2h, c2s, c3c, c3d, c3h])
        [(''A'', [c2c, c2d]), (''B'', [c3s, c4c])]
   \<and> street_scored example_table example_card (take 4 [c2h, c2s, c3c, c3d, c3h])
        [(''A'', [c2c, c2d]), (''B'', [c3s, c4c])]
   \<and> street_scored example_table example_card [c2h, c2s, c3c, c3d, c3h]
        [(''A'', [c2c, c2d]), (''B'', [c3s, c4c])]
   \<and> street_leaders (street_ranks example_table example_card (take 3 [c2h, c2s, c3c, c3d, c3h])
        [(''A'', [c2c, c2d]), (''B'', [c3s, c4c])]) = [''A'']
   \<and> street_leaders (street_ranks example_table example_card [c2h, c2s, c3c, c3d, c3h]
        [(''A'', [c2c, c2d]), (''B'', [c3s, c4c])]) = [''B'']
   \<and> hand_summary example_table example_card [c2h, c2s, c3c, c3d, c3h]
        [(''A'', [c2c, c2d]), (''B'', [c3s, c4c])] = Inr [''B'']"
proof -
  let ?board = "[c2h, c2s, c3c, c3d, c3h]"
  let ?hands = "[(''A'', [c2c, c2d]), (''B'', [c3s, c4c])]"
  have len: "length ?board = 5" by simp
  have flop: "street_scored example_table example_card (take 3 ?board) ?hands"
    by (simp add: street_scored_def example_flop)
  have turn: "street_scored example_table example_card (take 4 ?board) ?hands"
    by (simp add: street_scored_def example_turn)
  have river: "street_scored example_table example_card ?board ?hands"
    by (simp add: street_scored_def example_river)
  have flop_leaders:
    "street_leaders (street_ranks example_table example_card (take 3 ?board) ?hands) = [''A'']"
    using example_flop [THEN score_player_evaluate]
    by (simp add: street_leaders_def street_ranks_def)
  have river_leaders:
    "street_leaders (street_ranks example_table example_card ?board ?hands) = [''B'']"
    using example_river [THEN score_player_evaluate]
    by (simp add: street_leaders_def street_ranks_def)
  from hand_summary_river_leaders [OF len flop turn river] river_leaders
  have "hand_summary example_table example_card ?board ?hands = Inr [''B'']" by simp
  with len flop turn river flop_leaders river_leaders show ?thesis by blast
qed


text \<open>
  Read without the loop: with at least one player and no rank worse than 7462, the
  leaders are the players of least rank.
\<close>

lemma fold_min_le: "fold min (rs :: int list) b \<le> b"
proof (induction rs arbitrary: b)
  case Nil
  show ?case by simp
next
  case (Cons a rs)
  have "fold min rs (min a b) \<le> min a b" by (rule Cons.IH)
  also have "\<dots> \<le> b" by simp
  finally show ?case by simp
qed

lemma fold_min_Min:
  "fold min (rs :: int list) b = Min (insert b (set rs))"
proof (induction rs arbitrary: b)
  case Nil
  show ?case by simp
next
  case (Cons r rs)
  show ?case
    by (cases "set rs = {}") (simp_all add: Cons.IH ac_simps)
qed

text \<open>
  The winner detection over a street, in closed form: the best rank is the least of
  the starting value and the players' ranks, and the winners are the players with that
  rank, after the earlier winners when the starting value was not improved.
\<close>

lemma leaders_fold:
  "fold (\<lambda>(p, r). detect_winner p r) prs (b, ls) =
     (let m = fold min (map snd prs) b
      in (m, (if m < b then [] else ls) @ map fst (filter (\<lambda>(p, r). r = m) prs)))"
proof (induction prs arbitrary: b ls)
  case Nil
  show ?case by simp
next
  case (Cons pr prs)
  obtain p r where pr: "pr = (p, r)" by (cases pr)
  define b' where "b' = min r b"
  define m where "m = fold min (map snd prs) b'"
  have m_le: "m \<le> b'" unfolding m_def by (rule fold_min_le)
  have rhs: "fold min (map snd (pr # prs)) b = m"
    by (simp add: pr m_def b'_def)
  have "\<exists>ls'. detect_winner p r (b, ls) = (b', ls')
          \<and> (if m < b' then [] else ls') @ map fst (filter (\<lambda>(p, r). r = m) prs)
            = (if m < b then [] else ls) @ map fst (filter (\<lambda>(p, r). r = m) (pr # prs))"
  proof -
    consider "r < b" | "r = b" | "b < r" by linarith
    then show ?thesis
    proof cases
      case 1
      then have "detect_winner p r (b, ls) = (b', [p])"
        by (simp add: detect_winner_def b'_def)
      moreover from 1 have "b' = r" by (simp add: b'_def)
      ultimately show ?thesis using 1 m_le by (auto simp: pr)
    next
      case 2
      then have "detect_winner p r (b, ls) = (b', ls @ [p])"
        by (simp add: detect_winner_def b'_def)
      moreover from 2 have "b' = b" by (simp add: b'_def)
      ultimately show ?thesis using 2 m_le by (auto simp: pr)
    next
      case 3
      then have "detect_winner p r (b, ls) = (b', ls)"
        by (simp add: detect_winner_def b'_def)
      moreover from 3 have "b' = b" by (simp add: b'_def)
      ultimately show ?thesis using 3 m_le by (auto simp: pr)
    qed
  qed
  then obtain ls' where dw: "detect_winner p r (b, ls) = (b', ls')"
    and eq: "(if m < b' then [] else ls') @ map fst (filter (\<lambda>(p, r). r = m) prs)
            = (if m < b then [] else ls) @ map fst (filter (\<lambda>(p, r). r = m) (pr # prs))"
    by blast
  have "fold (\<lambda>(p, r). detect_winner p r) (pr # prs) (b, ls)
          = fold (\<lambda>(p, r). detect_winner p r) prs (b', ls')"
    by (simp add: pr dw)
  also have "\<dots> = (m, (if m < b' then [] else ls') @ map fst (filter (\<lambda>(p, r). r = m) prs))"
    unfolding Cons.IH m_def Let_def ..
  finally show ?case
    unfolding rhs Let_def eq .
qed

text \<open>
  With at least one player and no rank worse than 7462, the leaders of a street are
  the players whose rank is the minimum, in iteration order.
\<close>

lemma street_leaders_best:
  assumes "prs \<noteq> []" and "\<forall>(p, r) \<in> set prs. r \<le> 7462"
  shows "street_leaders prs = map fst (filter (\<lambda>(p, r). r = Min (snd ` set prs)) prs)"
proof -
  from assms(1) obtain pr where pr: "pr \<in> set prs" by (cases prs) auto
  have fin: "finite (snd ` set prs)" by simp
  from pr have ne: "snd ` set prs \<noteq> {}" by auto
  from assms(2) pr have "snd pr \<le> 7462" by auto
  moreover from pr fin have "Min (snd ` set prs) \<le> snd pr" by simp
  ultimately have lt: "Min (snd ` set prs) < 7463" by simp
  have "fold min (map snd prs) 7463 = Min (insert 7463 (snd ` set prs))"
    by (simp add: fold_min_Min)
  also have "\<dots> = min 7463 (Min (snd ` set prs))"
    using fin ne by (rule Min_insert)
  also have "\<dots> = Min (snd ` set prs)"
    using lt by simp
  finally have m: "fold min (map snd prs) 7463 = Min (snd ` set prs)" .
  show ?thesis
    using lt by (simp add: street_leaders_def leader_step leaders_fold m)
qed

subsection \<open>The board length check of \<open>hand_summary\<close>\<close>

text \<open>
  No call made after the assertion produces the assertion's error.
\<close>

lemma rank_class_of_not_board: "rank_class_of T k \<noteq> Inl InvalidBoardLength"
  by (simp add: rank_class_of_def split: option.split)

lemma table_get_not_board: "table_get d k \<noteq> Inl InvalidBoardLength"
  by (simp add: table_get_def split: option.split)

lemma five_not_board: "five T C cards \<noteq> Inl InvalidBoardLength"
  by (simp add: five_def Let_def table_get_not_board)

lemma best_loop_not_board: "best_loop T C combos m \<noteq> Inl InvalidBoardLength"
  by (induction combos arbitrary: m) (auto simp: five_not_board split: sum.split)

lemma evaluate_not_board: "evaluate T C hand board \<noteq> Inl InvalidBoardLength"
  by (simp add: evaluate_def Let_def five_not_board six_def seven_def best_loop_not_board)

lemma get_rank_class_not_board: "get_rank_class T hr \<noteq> Inl InvalidBoardLength"
  by (simp add: get_rank_class_def rank_class_of_not_board)

lemma class_to_string_not_board: "class_to_string T c \<noteq> Inl InvalidBoardLength"
  by (simp add: class_to_string_def split: option.split)

lemma percentage_not_board: "get_five_card_rank_percentage r \<noteq> Inl InvalidBoardLength"
  by (simp add: get_five_card_rank_percentage_def py_float_def float_div_def split: sum.split)

lemma score_player_not_board: "score_player T C hand b \<noteq> Inl InvalidBoardLength"
  using evaluate_not_board [of T C hand b]
  by (auto simp: score_player_def get_rank_class_not_board
      class_to_string_not_board percentage_not_board split: sum.splits)

lemma players_loop_not_board: "players_loop T C b hands s \<noteq> Inl InvalidBoardLength"
proof (induction hands arbitrary: s)
  case Nil
  show ?case by simp
next
  case (Cons ph hands)
  obtain player hand where ph: "ph = (player, hand)" by (cases ph)
  show ?case
    using Cons.IH score_player_not_board [of T C hand b]
    by (auto simp: ph split: sum.splits)
qed

lemma stages_loop_not_board: "stages_loop T C board hands stages w \<noteq> Inl InvalidBoardLength"
  by (induction stages arbitrary: w) (auto simp: players_loop_not_board split: sum.split prod.split)

text \<open>
  Claim C9. \<open>hand_summary\<close> fails with the board-length error exactly when the board
  does not have 5 cards. The failure does not depend on the hands, the table or the
  codec: the assertion comes before any hand is evaluated. A board of 5 cards passes
  the check, whatever happens afterwards.
\<close>

theorem hand_summary_board_length:
  "(hand_summary T C board hands = Inl InvalidBoardLength) = (length board \<noteq> 5)"
  by (simp add: hand_summary_def BOARD_LENGTH_def stages_loop_not_board)

theorem hand_summary_board_length_witness:
  "hand_summary example_table example_card [c2h, c2s, c3c, c3d] [(''A'', [c2c, c2d])]
     = Inl InvalidBoardLength
   \<and> hand_summary example_table example_card [c2h, c2s, c3c, c3d, c3h] [(''A'', [c2c, c2d])]
     \<noteq> Inl InvalidBoardLength"
  by (simp add: hand_summary_board_length)

subsection \<open>Dispatch on the number of cards\<close>

text \<open>
  Claim C7, as stated, asks for an explicit error of its own for an unsupported number
  of cards. The failure on four cards is the \<open>KeyError(4)\<close> of the dictionary miss, the
  very error that a supported hand of five cards gives when its prime product 4 is
  missing from \<open>unsuited_lookup\<close>: the error does not tell an unsupported hand size
  from a table miss.
\<close>

theorem evaluate_unsupported_hand_size_counterexample:
  "length ([cAs, cKs] @ [cQs, cJs]) = 4 \<and> length ([2, 2] @ [1, 1, 1 :: int]) = 5
   \<and> evaluate example_table example_card [cAs, cKs] [cQs, cJs] = Inl (KeyError 4)
   \<and> evaluate example_table example_card [2, 2] [1, 1, 1] = Inl (KeyError 4)"
  by (simp add: evaluate_def Let_def five_def example_table_def example_card_def
      table_get_def spec_prime_product_from_hand_def)

text \<open>
  Claim C7, amended. When hand and board together have a number \<open>n\<close> of cards other
  than 5, 6 or 7, \<open>evaluate\<close> returns no rank: it fails at the dispatch, before any card
  is scored, with the \<open>KeyError(n)\<close> of the \<open>hand_size_map\<close> miss.
\<close>

theorem evaluate_unsupported_hand_size:
  assumes "length (hand @ board) \<notin> {5, 6, 7}"
  shows "evaluate T C hand board = Inl (KeyError (int (length (hand @ board))))"
  using assms by (simp add: evaluate_def Let_def)

theorem evaluate_unsupported_hand_size_witness:
  "length ([cAs, cKs] @ [cQs, cJs]) \<notin> {5 :: nat, 6, 7}
   \<and> evaluate example_table example_card [cAs, cKs] [cQs, cJs] = Inl (KeyError 4)"
  using evaluate_unsupported_hand_size [of "[cAs, cKs]" "[cQs, cJs]" example_table example_card]
  by simp

end
